theory Spec2Isabelle
  imports Main
begin

section \<open>Values crossing the module boundary\<close>

text \<open>
  The module \<^verbatim>\<open>matrixHttpApi.ts\<close> keeps one session in module-level variables and talks
  to three kinds of outside parties: the homeserver (through \<^verbatim>\<open>apiAsync\<close>), the
  registered callbacks, and the timer. Everything it does to them is recorded, in order,
  as an \<open>action\<close>; everything they answer is an input of the model.

  A JavaScript \<^verbatim>\<open>throw\<close> can carry any value. The catch block of the sync loop
  distinguishes \<^verbatim>\<open>Error\<close> instances from other values, so the model does too:
  \<open>ErrorObject m\<close> is an \<^verbatim>\<open>Error\<close> with message \<open>m\<close>, \<open>OtherValue v\<close> is any other
  thrown value, given by its \<^verbatim>\<open>String(...)\<close> rendering.
\<close>

datatype thrown = ErrorObject string | OtherValue string

text \<open>How a call that yields no value ends (a callback, a join request).\<close>

datatype completion = Returns | Throws thrown

text \<open>
  What \<^verbatim>\<open>apiAsync\<close> hands back once the request is out: it throws (network failure,
  non-2xx status, unparsable body), it returns \<^verbatim>\<open>null\<close> (empty body), or it returns
  the parsed JSON, which the callers cast to the declared response type.
\<close>

datatype 'a api_result = ApiThrows thrown | ApiNull | ApiJson 'a

record Content =
  msgtype :: "string option"
  body :: "string option"

record MatrixEvent =
  event_id :: "string option"
  type :: "string option"
  sender :: "string option"
  content :: "Content option"

record Timeline =
  events :: "MatrixEvent list option"

record JoinedRoom =
  timeline :: "Timeline option"

text \<open>
  \<open>invite\<close> holds the keys of the \<^verbatim>\<open>invite\<close> object in the order
  \<^verbatim>\<open>Object.keys\<close> enumerates them (the loop reads nothing else of it);
  \<open>join\<close> is the \<^verbatim>\<open>Record<string, ...>\<close> of joined rooms.
\<close>

record Rooms =
  invite :: "string list option"
  join :: "(string \<rightharpoonup> JoinedRoom) option"

record SyncResponse =
  next_batch :: "string option"
  rooms :: "Rooms option"

type_synonym MessageCallback = "string \<Rightarrow> string \<Rightarrow> completion"
type_synonym ErrorCallback = "thrown \<Rightarrow> completion"
type_synonym ExitCallback = "unit \<Rightarrow> completion"

record MatrixClientConfig =
  homeserver :: string
  botAccessToken :: string
  roomId :: string
  humanUserId :: string
  onHumanMessage :: "MessageCallback option"
  onError :: "ErrorCallback option"
  onExit :: "ExitCallback option"

text \<open>
  The externally visible steps of the module: the three requests it sends, the three
  callbacks it invokes (with their arguments) and the back-off timer (milliseconds).
  \<open>Sync c t\<close> is a sync request whose \<^verbatim>\<open>since\<close> parameter is \<open>c\<close> (\<open>None\<close> when
  the parameter is omitted) and whose \<^verbatim>\<open>timeout\<close> parameter is \<open>t\<close>.
\<close>

datatype action =
    Whoami
  | Sync "string option" nat
  | Join string
  | CallMessage string string
  | CallError thrown
  | CallExit
  | Sleep nat

section \<open>Module state\<close>

text \<open>
  The module-level variables. \<open>seen\<close> is the JavaScript \<^verbatim>\<open>Set<string>\<close>, kept as
  the list of its members in insertion order (which is the order a \<^verbatim>\<open>Set\<close> iterates
  in). \<open>trace\<close> is not a variable of the program: it is the history of actions, oldest
  first, by which the theorems observe what the module did.

  A callback is modelled by how its invocation ends, as a function of its arguments;
  callbacks do not reach back into the module's variables.
\<close>

record State =
  config :: "MatrixClientConfig option"
  since :: "string option"
  messageCallback :: "MessageCallback option"
  errorCallback :: "ErrorCallback option"
  exitCallback :: "ExitCallback option"
  botUserId :: "string option"
  running :: bool
  seen :: "string list"
  trace :: "action list"

definition MAX_SEEN :: nat where
  "MAX_SEEN = 1000"

definition initial_state :: State where
  "initial_state = \<lparr> config = None, since = None, messageCallback = None,
     errorCallback = None, exitCallback = None, botUserId = None, running = False,
     seen = [], trace = [] \<rparr>"

definition emit :: "action \<Rightarrow> State \<Rightarrow> State" where
  "emit a s = s\<lparr>trace := trace s @ [a]\<rparr>"

text \<open>JavaScript truthiness of an optional string: absent and empty are both falsy.\<close>

definition truthy :: "string option \<Rightarrow> bool" where
  "truthy v = (case v of None \<Rightarrow> False | Some str \<Rightarrow> str \<noteq> [])"

text \<open>
  \<^verbatim>\<open>toLowerCase\<close> on the letters A to Z; every other character is left as it is. No
  character outside A to Z lowers to one of the letters of \<^verbatim>\<open>exit\<close>, the only string
  the result is compared with.
\<close>

definition lowerChar :: "char \<Rightarrow> char" where
  "lowerChar c = (let n = (of_char c :: nat) in if 65 \<le> n \<and> n \<le> 90 then char_of (n + 32) else c)"

definition toLowerCase :: "string \<Rightarrow> string" where
  "toLowerCase str = map lowerChar str"

section \<open>The dedup window\<close>

definition set_has :: "string list \<Rightarrow> string \<Rightarrow> bool" where
  "set_has xs x = (x \<in> set xs)"

definition set_add :: "string \<Rightarrow> string list \<Rightarrow> string list" where
  "set_add x xs = (if x \<in> set xs then xs else xs @ [x])"

definition set_delete :: "string \<Rightarrow> string list \<Rightarrow> string list" where
  "set_delete x xs = removeAll x xs"

text \<open>
  The \<^verbatim>\<open>for (const id of seen)\<close> loop of \<^verbatim>\<open>evictOldSeen\<close>: the second list is what
  the iterator has still to visit, the third is the set. The loop deletes only the member
  it is visiting, so the members still to visit are the tail of the list it started on.
\<close>

fun evictOldSeen_for :: "nat \<Rightarrow> nat \<Rightarrow> string list \<Rightarrow> string list \<Rightarrow> string list" where
  "evictOldSeen_for toDelete count [] xs = xs"
| "evictOldSeen_for toDelete count (x # rest) xs =
     (if count \<ge> toDelete then xs
      else evictOldSeen_for toDelete (Suc count) rest (set_delete x xs))"

definition evictOldSeen :: "string list \<Rightarrow> string list" where
  "evictOldSeen xs =
     (if length xs > MAX_SEEN
      then evictOldSeen_for (length xs - MAX_SEEN) 0 xs xs
      else xs)"

section \<open>Stopping\<close>

definition stop :: "State \<Rightarrow> State" where
  "stop s = s\<lparr>running := False\<rparr>"

definition shutdownAsync :: "State \<Rightarrow> completion \<times> State" where
  "shutdownAsync s =
     (case exitCallback s of
        None \<Rightarrow> (Returns, stop s)
      | Some cb \<Rightarrow>
          (let s1 = emit CallExit s in
           case cb () of
             Throws x \<Rightarrow> (Throws x, s1)
           | Returns \<Rightarrow> (Returns, stop s1)))"

definition handleExitAsync :: "State \<Rightarrow> completion \<times> State" where
  "handleExitAsync s =
     (case exitCallback s of
        None \<Rightarrow> (Returns, stop s)
      | Some cb \<Rightarrow>
          (let s1 = emit CallExit s in
           case cb () of
             Throws x \<Rightarrow> (Throws x, s1)
           | Returns \<Rightarrow> (Returns, stop s1)))"

section \<open>The event filter\<close>

text \<open>How one pass through the body of a \<^verbatim>\<open>for\<close> loop ends.\<close>

datatype control = Continue | Return | Raise thrown

text \<open>
  The body of the loop of \<^verbatim>\<open>processEventsAsync\<close> for one event. \<open>cfg\<close> and \<open>botId\<close>
  are \<^verbatim>\<open>config\<close> and \<^verbatim>\<open>botUserId\<close>, which the function has checked on entry.
\<close>

definition processEvents_body ::
  "MatrixClientConfig \<Rightarrow> string \<Rightarrow> MatrixEvent \<Rightarrow> State \<Rightarrow> control \<times> State" where
  "processEvents_body cfg botId ev s =
     (case event_id ev of
        None \<Rightarrow> (Continue, s)
      | Some eventId \<Rightarrow>
          if eventId = [] \<or> set_has (seen s) eventId then (Continue, s)
          else
            let s1 = s\<lparr>seen := evictOldSeen (set_add eventId (seen s))\<rparr> in
            if type ev \<noteq> Some ''m.room.message'' then (Continue, s1)
            else if Option.bind (content ev) msgtype \<noteq> Some ''m.text'' then (Continue, s1)
            else
              (case (sender ev, Option.bind (content ev) body) of
                 (Some sndr, Some bdy) \<Rightarrow>
                   if sndr = [] \<or> bdy = [] then (Continue, s1)
                   else if sndr = botId then (Continue, s1)
                   else if sndr = humanUserId cfg then
                     (if toLowerCase bdy = ''exit'' then
                        (case handleExitAsync s1 of
                           (Throws x, s2) \<Rightarrow> (Raise x, s2)
                         | (Returns, s2) \<Rightarrow> (Return, s2))
                      else
                        (case messageCallback s1 of
                           None \<Rightarrow> (Continue, s1)
                         | Some cb \<Rightarrow>
                             (let s2 = emit (CallMessage bdy sndr) s1 in
                              case cb bdy sndr of
                                Throws x \<Rightarrow> (Raise x, s2)
                              | Returns \<Rightarrow> (Continue, s2))))
                   else (Continue, s1)
               | _ \<Rightarrow> (Continue, s1)))"

text \<open>
  The loop itself: \<open>Continue\<close> as a result means the loop ran off the end of the batch,
  \<open>Return\<close> that the function returned from inside it, \<open>Raise\<close> that an exception left it.
\<close>

fun processEvents_for ::
  "MatrixClientConfig \<Rightarrow> string \<Rightarrow> MatrixEvent list \<Rightarrow> State \<Rightarrow> control \<times> State" where
  "processEvents_for cfg botId [] s = (Continue, s)"
| "processEvents_for cfg botId (ev # evs) s =
     (case processEvents_body cfg botId ev s of
        (Continue, s1) \<Rightarrow> processEvents_for cfg botId evs s1
      | (Return, s1) \<Rightarrow> (Return, s1)
      | (Raise x, s1) \<Rightarrow> (Raise x, s1))"

definition processEventsAsync :: "MatrixEvent list \<Rightarrow> State \<Rightarrow> completion \<times> State" where
  "processEventsAsync evs s =
     (case (config s, botUserId s) of
        (Some cfg, Some botId) \<Rightarrow>
          if botId = [] then (Returns, s)
          else
            (case processEvents_for cfg botId evs s of
               (Raise x, s1) \<Rightarrow> (Throws x, s1)
             | (_, s1) \<Rightarrow> (Returns, s1))
      | _ \<Rightarrow> (Returns, s))"

section \<open>Requests\<close>

text \<open>
  \<^verbatim>\<open>apiAsync\<close> refuses to work before \<^verbatim>\<open>config\<close> is set; otherwise the request goes
  out and the outside world's answer comes back. The first argument is the request as it
  appears in the trace, the second the answer to it.
\<close>

definition notInitialized :: thrown where
  "notInitialized = ErrorObject ''Matrix client not initialized''"

text \<open>
  Reading a property of \<^verbatim>\<open>null\<close> throws a \<^verbatim>\<open>TypeError\<close>; its message is the
  engine's and plays no role.
\<close>

definition typeError :: thrown where
  "typeError = ErrorObject ''TypeError''"

definition apiAsync :: "action \<Rightarrow> 'a api_result \<Rightarrow> State \<Rightarrow> 'a api_result \<times> State" where
  "apiAsync request answer s =
     (case config s of
        None \<Rightarrow> (ApiThrows notInitialized, s)
      | Some cfg \<Rightarrow> (answer, emit request s))"

definition whoamiAsync :: "string api_result \<Rightarrow> State \<Rightarrow> (thrown + string) \<times> State" where
  "whoamiAsync answer s =
     (case apiAsync Whoami answer s of
        (ApiThrows x, s1) \<Rightarrow> (Inl x, s1)
      | (ApiNull, s1) \<Rightarrow> (Inl typeError, s1)
      | (ApiJson uid, s1) \<Rightarrow> (Inr uid, s1))"

text \<open>The \<^verbatim>\<open>since\<close> parameter is set only for a truthy token.\<close>

definition syncRequest :: "string option \<Rightarrow> nat \<Rightarrow> action" where
  "syncRequest sinceToken timeoutMs = Sync (if truthy sinceToken then sinceToken else None) timeoutMs"

definition syncOnceAsync ::
  "string option \<Rightarrow> nat \<Rightarrow> SyncResponse api_result \<Rightarrow> State \<Rightarrow> SyncResponse api_result \<times> State" where
  "syncOnceAsync sinceToken timeoutMs answer s = apiAsync (syncRequest sinceToken timeoutMs) answer s"

definition joinRoomAsync :: "string \<Rightarrow> completion \<Rightarrow> State \<Rightarrow> completion \<times> State" where
  "joinRoomAsync roomIdOrAlias answer s =
     (case config s of
        None \<Rightarrow> (Throws notInitialized, s)
      | Some cfg \<Rightarrow> (answer, emit (Join roomIdOrAlias) s))"

section \<open>The sync loop\<close>

text \<open>
  What the homeserver answers during one iteration: to the sync request, and to a join
  request for each room.
\<close>

record Answers =
  sync_answer :: "SyncResponse api_result"
  join_answer :: "string \<Rightarrow> completion"

text \<open>The auto-join loop over the invited rooms.\<close>

fun syncLoop_join :: "(string \<Rightarrow> completion) \<Rightarrow> string list \<Rightarrow> State \<Rightarrow> completion \<times> State" where
  "syncLoop_join ans [] s = (Returns, s)"
| "syncLoop_join ans (rid # rids) s =
     (case joinRoomAsync rid (ans rid) s of
        (Throws x, s1) \<Rightarrow> (Throws x, s1)
      | (Returns, s1) \<Rightarrow> syncLoop_join ans rids s1)"

definition invitedRooms :: "SyncResponse \<Rightarrow> string list" where
  "invitedRooms r = (case Option.bind (rooms r) invite of None \<Rightarrow> [] | Some rids \<Rightarrow> rids)"

definition roomEvents :: "SyncResponse \<Rightarrow> string \<Rightarrow> MatrixEvent list" where
  "roomEvents r rid =
     (case Option.bind (Option.bind (Option.bind (Option.bind (rooms r) join) (\<lambda>j. j rid)) timeline) events of
        None \<Rightarrow> []
      | Some evs \<Rightarrow> evs)"

text \<open>
  The part of the \<^verbatim>\<open>try\<close> block after the cursor has been set: the joins, then the
  events of the configured room.
\<close>

definition syncLoop_process :: "MatrixClientConfig \<Rightarrow> Answers \<Rightarrow> SyncResponse \<Rightarrow> State \<Rightarrow> completion \<times> State" where
  "syncLoop_process cfg a r s =
     (case syncLoop_join (join_answer a) (invitedRooms r) s of
        (Throws x, s1) \<Rightarrow> (Throws x, s1)
      | (Returns, s1) \<Rightarrow> processEventsAsync (roomEvents r (roomId cfg)) s1)"

definition syncLoop_try :: "MatrixClientConfig \<Rightarrow> Answers \<Rightarrow> State \<Rightarrow> completion \<times> State" where
  "syncLoop_try cfg a s =
     (case syncOnceAsync (since s) 30000 (sync_answer a) s of
        (ApiThrows x, s1) \<Rightarrow> (Throws x, s1)
      | (ApiNull, s1) \<Rightarrow> (Throws typeError, s1)
      | (ApiJson r, s1) \<Rightarrow>
          syncLoop_process cfg a r
            (if truthy (next_batch r) then s1\<lparr>since := next_batch r\<rparr> else s1))"

definition toError :: "thrown \<Rightarrow> thrown" where
  "toError err = (case err of ErrorObject m \<Rightarrow> ErrorObject m | OtherValue v \<Rightarrow> ErrorObject v)"

definition syncLoop_catch :: "thrown \<Rightarrow> State \<Rightarrow> completion \<times> State" where
  "syncLoop_catch err s =
     (let error = toError err in
      case errorCallback s of
        None \<Rightarrow> (Returns, emit (Sleep 2000) s)
      | Some cb \<Rightarrow>
          (let s1 = emit (CallError error) s in
           case cb error of
             Throws y \<Rightarrow> (Throws y, s1)
           | Returns \<Rightarrow> (Returns, emit (Sleep 2000) s1)))"

definition syncLoop_iteration :: "MatrixClientConfig \<Rightarrow> Answers \<Rightarrow> State \<Rightarrow> completion \<times> State" where
  "syncLoop_iteration cfg a s =
     (case syncLoop_try cfg a s of
        (Throws x, s1) \<Rightarrow> syncLoop_catch x s1
      | (Returns, s1) \<Rightarrow> (Returns, s1))"

text \<open>
  The loop runs for as long as the homeserver keeps answering. The model follows it
  through a finite list of answers, one per iteration: \<open>Ended\<close> means the loop found
  \<^verbatim>\<open>running\<close> false and returned, \<open>Crashed x\<close> that \<open>x\<close> was thrown out of it, and
  \<open>Polling\<close> that the answers are used up and the loop has sent its next sync request,
  which is still open. \<open>cfg\<close> is \<^verbatim>\<open>config\<close>, which \<^verbatim>\<open>syncLoopAsync\<close> has checked on
  entry.
\<close>

datatype loop_result = Ended | Crashed thrown | Polling

fun syncLoop_while :: "MatrixClientConfig \<Rightarrow> Answers list \<Rightarrow> State \<Rightarrow> loop_result \<times> State" where
  "syncLoop_while cfg [] s =
     (if running s then (Polling, emit (syncRequest (since s) 30000) s) else (Ended, s))"
| "syncLoop_while cfg (a # as) s =
     (if running s then
        (case syncLoop_iteration cfg a s of
           (Throws x, s1) \<Rightarrow> (Crashed x, s1)
         | (Returns, s1) \<Rightarrow> syncLoop_while cfg as s1)
      else (Ended, s))"

definition syncLoopAsync :: "Answers list \<Rightarrow> State \<Rightarrow> loop_result \<times> State" where
  "syncLoopAsync as s =
     (case config s of
        None \<Rightarrow> (Ended, s)
      | Some cfg \<Rightarrow> syncLoop_while cfg as s)"

text \<open>
  \<^verbatim>\<open>loopInBackground\<close> starts the loop and does not wait for it or look at how it
  ends; the loop's steps follow in the trace.
\<close>

definition loopInBackground :: "Answers list \<Rightarrow> State \<Rightarrow> State" where
  "loopInBackground as s =
     (if running s then s else snd (syncLoopAsync as (s\<lparr>running := True\<rparr>)))"

section \<open>Initialization\<close>

record InitAnswers =
  whoami_answer :: "string api_result"
  boot_answer :: "SyncResponse api_result"

text \<open>
  The signal handlers \<^verbatim>\<open>initAsync\<close> registers call \<open>shutdownAsync\<close>; a signal is
  modelled by applying \<open>shutdownAsync\<close> to the state.
\<close>

definition initAsync :: "InitAnswers \<Rightarrow> Answers list \<Rightarrow> MatrixClientConfig \<Rightarrow> State \<Rightarrow> completion \<times> State" where
  "initAsync ia as cfg s =
     (let s1 = s\<lparr> config := Some cfg,
                  messageCallback := (case onHumanMessage cfg of None \<Rightarrow> messageCallback s | Some cb \<Rightarrow> Some cb),
                  errorCallback := (case onError cfg of None \<Rightarrow> errorCallback s | Some cb \<Rightarrow> Some cb),
                  exitCallback := (case onExit cfg of None \<Rightarrow> exitCallback s | Some cb \<Rightarrow> Some cb) \<rparr> in
      case whoamiAsync (whoami_answer ia) s1 of
        (Inl x, s2) \<Rightarrow> (Throws x, s2)
      | (Inr uid, s2) \<Rightarrow>
          (let s3 = s2\<lparr>botUserId := Some uid\<rparr> in
           case syncOnceAsync None 0 (boot_answer ia) s3 of
             (ApiThrows x, s4) \<Rightarrow> (Throws x, s4)
           | (ApiNull, s4) \<Rightarrow> (Throws typeError, s4)
           | (ApiJson boot, s4) \<Rightarrow>
               (Returns, loopInBackground as (s4\<lparr>since := next_batch boot\<rparr>))))"

section \<open>Notions used in the statements and the proofs\<close>

text \<open>
  What the first two statements of the loop body of \<^verbatim>\<open>processEventsAsync\<close> make of
  the dedup window \<open>w\<close> when they meet the event \<open>ev\<close>.
\<close>

definition noted :: "MatrixEvent \<Rightarrow> string list \<Rightarrow> string list" where
  "noted ev w = (case event_id ev of None \<Rightarrow> w
     | Some i \<Rightarrow> if i = [] \<or> i \<in> set w then w else evictOldSeen (set_add i w))"

text \<open>
  \<open>session_kept s s'\<close>: from \<open>s\<close> to \<open>s'\<close> the configuration, the identity and the
  registered callbacks are the same, and the trace has only grown, by no sync request
  with timeout 0.
\<close>

definition session_kept :: "State \<Rightarrow> State \<Rightarrow> bool" where
  "session_kept s s' \<longleftrightarrow>
     config s' = config s \<and> botUserId s' = botUserId s \<and>
     messageCallback s' = messageCallback s \<and> errorCallback s' = errorCallback s \<and>
     exitCallback s' = exitCallback s \<and>
     (\<exists>t. trace s' = trace s @ t \<and> (\<forall>c. Sync c 0 \<notin> set t))"

text \<open>
  The event is a text message sent by \<open>human\<close> whose body, lower-cased, is \<^verbatim>\<open>exit\<close>.
\<close>

definition isExitCommand :: "string \<Rightarrow> MatrixEvent \<Rightarrow> bool" where
  "isExitCommand human ev \<longleftrightarrow>
     type ev = Some ''m.room.message'' \<and>
     Option.bind (content ev) msgtype = Some ''m.text'' \<and>
     sender ev = Some human \<and> human \<noteq> [] \<and>
     (case Option.bind (content ev) body of None \<Rightarrow> False | Some bdy \<Rightarrow> toLowerCase bdy = ''exit'')"

text \<open>
  The cursor the session holds when the \<^verbatim>\<open>try\<close> block of an iteration is left, by
  return or by exception: the \<^verbatim>\<open>next_batch\<close> of the answer when the poll succeeded
  and carried a truthy one, the cursor held before otherwise.
\<close>

definition adopted :: "Answers \<Rightarrow> State \<Rightarrow> string option" where
  "adopted a s = (case sync_answer a of
      ApiJson r \<Rightarrow> if truthy (next_batch r) then next_batch r else since s
    | _ \<Rightarrow> since s)"

section \<open>Example inputs\<close>

text \<open>1001 distinct identifiers: one more than the window holds.\<close>

definition ex_ids :: "string list" where
  "ex_ids = map (\<lambda>n. replicate n CHR ''x'') [1..<1002]"

text \<open>
  A running session with all three callbacks registered and returning normally, and a
  constructor for text-message events.
\<close>

definition ex_config :: MatrixClientConfig where
  "ex_config = \<lparr> homeserver = ''https://hs.example'', botAccessToken = ''token'',
     roomId = ''!room:x'', humanUserId = ''@human:x'',
     onHumanMessage = None, onError = None, onExit = None \<rparr>"

definition ex_state :: State where
  "ex_state = \<lparr> config = Some ex_config, since = Some ''T1'',
     messageCallback = Some (\<lambda>message sndr. Returns),
     errorCallback = Some (\<lambda>error. Returns),
     exitCallback = Some (\<lambda>u. Returns),
     botUserId = Some ''@bot:x'', running = True, seen = [], trace = [] \<rparr>"

definition textEvent :: "string \<Rightarrow> string \<Rightarrow> string \<Rightarrow> MatrixEvent" where
  "textEvent i sndr bdy = \<lparr> event_id = Some i, type = Some ''m.room.message'', sender = Some sndr,
     content = Some \<lparr> msgtype = Some ''m.text'', body = Some bdy \<rparr> \<rparr>"

text \<open>A value for callbacks and requests to throw.\<close>

definition ex_boom :: thrown where
  "ex_boom = ErrorObject ''boom''"

text \<open>
  A sync response with a cursor, invitations and events of the configured room; answers
  of an iteration in which every join succeeds; a join that fails for one room; the
  answers to initialization, with a backlog in the bootstrap response; a configuration
  that registers all three callbacks.
\<close>

definition ex_response :: "string \<Rightarrow> string list \<Rightarrow> MatrixEvent list \<Rightarrow> SyncResponse" where
  "ex_response token rids evs =
     \<lparr> next_batch = Some token,
       rooms = Some \<lparr> invite = Some rids,
                      join = Some [''!room:x'' \<mapsto> \<lparr> timeline = Some \<lparr> events = Some evs \<rparr> \<rparr>] \<rparr> \<rparr>"

definition ex_answers :: "SyncResponse api_result \<Rightarrow> Answers" where
  "ex_answers r = \<lparr> sync_answer = r, join_answer = (\<lambda>rid. Returns) \<rparr>"

definition ex_failing_join :: "string \<Rightarrow> completion" where
  "ex_failing_join rid = (if rid = ''!a:x'' then Throws ex_boom else Returns)"

definition ex_init_answers :: InitAnswers where
  "ex_init_answers = \<lparr> whoami_answer = ApiJson ''@bot:x'',
     boot_answer = ApiJson (ex_response ''s1'' [''!invited:x'']
                      [textEvent ''old1'' ''@human:x'' ''hi'', textEvent ''old2'' ''@human:x'' ''exit'']) \<rparr>"

definition ex_callbacks_config :: MatrixClientConfig where
  "ex_callbacks_config = ex_config\<lparr> onHumanMessage := Some (\<lambda>message sndr. Returns),
     onError := Some (\<lambda>error. Returns), onExit := Some (\<lambda>u. Returns) \<rparr>"

section \<open>The dedup window keeps the most recent identifiers\<close>

lemma evictOldSeen_for_drop:
  "distinct xs \<Longrightarrow> c \<le> n \<Longrightarrow> evictOldSeen_for n c xs xs = drop (n - c) xs"
proof (induction xs arbitrary: c)
  case Nil
  then show ?case by simp
next
  case (Cons x rest)
  show ?case
  proof (cases "c \<ge> n")
    case True
    with Cons.prems show ?thesis by simp
  next
    case False
    then have lt: "Suc c \<le> n" by simp
    from Cons.prems have "removeAll x (x # rest) = rest" by simp
    moreover have "n - c = Suc (n - Suc c)" using False by simp
    ultimately show ?thesis
      using Cons.IH [OF _ lt] Cons.prems False by (simp add: set_delete_def)
  qed
qed

lemma evictOldSeen_drop:
  "distinct xs \<Longrightarrow> evictOldSeen xs = drop (length xs - MAX_SEEN) xs"
  by (simp add: evictOldSeen_def evictOldSeen_for_drop)

lemma drop_append_short: "k \<le> length xs \<Longrightarrow> drop k xs @ ys = drop k (xs @ ys)"
  by simp

lemma insert_all_drop:
  "distinct w \<Longrightarrow> distinct ids \<Longrightarrow> set ids \<inter> set w = {} \<Longrightarrow> length w \<le> MAX_SEEN \<Longrightarrow>
   foldl (\<lambda>w i. evictOldSeen (set_add i w)) w ids = drop (length (w @ ids) - MAX_SEEN) (w @ ids)"
proof (induction ids arbitrary: w)
  case Nil
  then show ?case by simp
next
  case (Cons i ids)
  let ?w1 = "evictOldSeen (set_add i w)"
  have add: "set_add i w = w @ [i]" using Cons.prems by (simp add: set_add_def)
  have d1: "distinct (w @ [i])" using Cons.prems by simp
  have w1: "?w1 = drop (Suc (length w) - MAX_SEEN) (w @ [i])"
    using evictOldSeen_drop [OF d1] add by simp
  have dw1: "distinct ?w1" unfolding w1 using d1 by (rule distinct_drop)
  have sub: "set ?w1 \<subseteq> set (w @ [i])" unfolding w1 by (rule set_drop_subset)
  have disj: "set ids \<inter> set ?w1 = {}" using sub Cons.prems by auto
  have len: "length ?w1 \<le> MAX_SEEN" unfolding w1 using Cons.prems by simp
  have "foldl (\<lambda>w i. evictOldSeen (set_add i w)) w (i # ids)
        = foldl (\<lambda>w i. evictOldSeen (set_add i w)) ?w1 ids" by simp
  also have "\<dots> = drop (length (?w1 @ ids) - MAX_SEEN) (?w1 @ ids)"
    using Cons.IH [OF dw1 _ disj len] Cons.prems by simp
  also have "\<dots> = drop (length (w @ i # ids) - MAX_SEEN) (w @ i # ids)"
  proof -
    let ?k = "Suc (length w) - MAX_SEEN"
    have k: "?k \<le> length (w @ [i])" by simp
    have "?w1 @ ids = drop ?k ((w @ [i]) @ ids)" unfolding w1 using k by (rule drop_append_short)
    then have "drop (length (?w1 @ ids) - MAX_SEEN) (?w1 @ ids)
          = drop (length (?w1 @ ids) - MAX_SEEN + ?k) ((w @ [i]) @ ids)"
      by (simp only: drop_drop)
    moreover have "length (?w1 @ ids) - MAX_SEEN + ?k = length (w @ i # ids) - MAX_SEEN"
      unfolding w1 using Cons.prems(4) by simp
    ultimately show ?thesis by simp
  qed
  finally show ?case .
qed


section \<open>What the event filter and the loop leave unchanged\<close>

lemmas body_splits = option.splits if_splits prod.splits completion.splits

lemma session_kept_refl: "session_kept s s"
  by (simp add: session_kept_def)

lemma session_kept_trans: "session_kept s s1 \<Longrightarrow> session_kept s1 s2 \<Longrightarrow> session_kept s s2"
  by (auto simp: session_kept_def)

lemma handleExitAsync_cases:
  "handleExitAsync s =
     (case exitCallback s of
        None \<Rightarrow> (Returns, s\<lparr>running := False\<rparr>)
      | Some cb \<Rightarrow>
          (case cb () of
             Throws x \<Rightarrow> (Throws x, s\<lparr>trace := trace s @ [CallExit]\<rparr>)
           | Returns \<Rightarrow> (Returns, s\<lparr>trace := trace s @ [CallExit], running := False\<rparr>)))"
  by (simp add: handleExitAsync_def stop_def emit_def Let_def split: option.splits completion.splits)


lemma body_kept:
  "processEvents_body cfg botId ev s = (c, s') \<Longrightarrow> session_kept s s'"
  by (auto simp: processEvents_body_def session_kept_def handleExitAsync_cases set_has_def emit_def Let_def split: body_splits)

lemma body_since:
  "processEvents_body cfg botId ev s = (c, s') \<Longrightarrow> since s' = since s"
  by (auto simp: processEvents_body_def handleExitAsync_cases set_has_def emit_def Let_def split: body_splits)

lemma body_running:
  "processEvents_body cfg botId ev s = (c, s') \<Longrightarrow> running s' = (if c = Return then False else running s)"
  by (auto simp: processEvents_body_def handleExitAsync_cases set_has_def emit_def Let_def split: body_splits)

lemma for_kept:
  "processEvents_for cfg botId evs s = (c, s') \<Longrightarrow> session_kept s s'"
proof (induction evs arbitrary: s)
  case Nil
  then show ?case by (simp add: session_kept_refl)
next
  case (Cons ev evs)
  obtain c1 s1 where b: "processEvents_body cfg botId ev s = (c1, s1)" by (cases "processEvents_body cfg botId ev s")
  have k1: "session_kept s s1" using b by (rule body_kept)
  show ?case
  proof (cases c1)
    case Continue
    with Cons.prems b have "processEvents_for cfg botId evs s1 = (c, s')" by simp
    then have "session_kept s1 s'" by (rule Cons.IH)
    with k1 show ?thesis by (rule session_kept_trans)
  next
    case Return
    with Cons.prems b have "s' = s1" by simp
    with k1 show ?thesis by simp
  next
    case (Raise x)
    with Cons.prems b have "s' = s1" by simp
    with k1 show ?thesis by simp
  qed
qed

lemma for_since:
  "processEvents_for cfg botId evs s = (c, s') \<Longrightarrow> since s' = since s"
proof (induction evs arbitrary: s)
  case Nil
  then show ?case by simp
next
  case (Cons ev evs)
  obtain c1 s1 where b: "processEvents_body cfg botId ev s = (c1, s1)" by (cases "processEvents_body cfg botId ev s")
  have k1: "since s1 = since s" using b by (rule body_since)
  show ?case
  proof (cases c1)
    case Continue
    with Cons.prems b have "processEvents_for cfg botId evs s1 = (c, s')" by simp
    then have "since s' = since s1" by (rule Cons.IH)
    with k1 show ?thesis by simp
  next
    case Return
    with Cons.prems b have "s' = s1" by simp
    with k1 show ?thesis by simp
  next
    case (Raise x)
    with Cons.prems b have "s' = s1" by simp
    with k1 show ?thesis by simp
  qed
qed

lemma for_running:
  "processEvents_for cfg botId evs s = (c, s') \<Longrightarrow> running s' = (if c = Return then False else running s)"
proof (induction evs arbitrary: s)
  case Nil
  then show ?case by auto
next
  case (Cons ev evs)
  obtain c1 s1 where b: "processEvents_body cfg botId ev s = (c1, s1)" by (cases "processEvents_body cfg botId ev s")
  have k1: "running s1 = (if c1 = Return then False else running s)" using b by (rule body_running)
  show ?case
  proof (cases c1)
    case Continue
    with Cons.prems b have "processEvents_for cfg botId evs s1 = (c, s')" by simp
    then have "running s' = (if c = Return then False else running s1)" by (rule Cons.IH)
    with k1 Continue show ?thesis by simp
  next
    case Return
    with Cons.prems b have "s' = s1" "c = Return" by auto
    with k1 Return show ?thesis by simp
  next
    case (Raise x)
    with Cons.prems b have "s' = s1" "c = Raise x" by auto
    with k1 Raise show ?thesis by simp
  qed
qed

lemma for_append:
  "processEvents_for cfg botId (pre @ evs) s =
     (case processEvents_for cfg botId pre s of
        (Continue, s1) \<Rightarrow> processEvents_for cfg botId evs s1
      | (Return, s1) \<Rightarrow> (Return, s1)
      | (Raise x, s1) \<Rightarrow> (Raise x, s1))"
  by (induction pre arbitrary: s) (auto split: prod.splits control.splits)

lemma processEventsAsync_kept:
  "processEventsAsync evs s = (c, s') \<Longrightarrow> session_kept s s'"
  by (auto simp: processEventsAsync_def session_kept_refl split: option.splits if_splits prod.splits control.splits dest: for_kept)

lemma processEventsAsync_since:
  "processEventsAsync evs s = (c, s') \<Longrightarrow> since s' = since s"
  by (auto simp: processEventsAsync_def split: option.splits if_splits prod.splits control.splits dest: for_since)

lemma processEventsAsync_throws_running:
  "processEventsAsync evs s = (Throws x, s') \<Longrightarrow> running s' = running s"
  by (auto simp: processEventsAsync_def split: option.splits if_splits prod.splits control.splits dest: for_running)

lemma join_frame:
  "syncLoop_join ans rids s = (c, s') \<Longrightarrow>
     session_kept s s' \<and> since s' = since s \<and> running s' = running s \<and> seen s' = seen s"
proof (induction rids arbitrary: s)
  case Nil
  then show ?case by (simp add: session_kept_refl)
next
  case (Cons rid rids)
  obtain c1 s1 where j: "joinRoomAsync rid (ans rid) s = (c1, s1)" by (cases "joinRoomAsync rid (ans rid) s")
  then have f1: "session_kept s s1 \<and> since s1 = since s \<and> running s1 = running s \<and> seen s1 = seen s"
    by (auto simp: joinRoomAsync_def session_kept_def emit_def split: option.splits)
  show ?case
  proof (cases c1)
    case Returns
    with Cons.prems j have "syncLoop_join ans rids s1 = (c, s')" by simp
    then have "session_kept s1 s' \<and> since s' = since s1 \<and> running s' = running s1 \<and> seen s' = seen s1"
      by (rule Cons.IH)
    with f1 show ?thesis by (auto intro: session_kept_trans)
  next
    case (Throws x)
    with Cons.prems j have "s' = s1" by simp
    with f1 show ?thesis by simp
  qed
qed

lemma join_all_return:
  "config s = Some cfg \<Longrightarrow> \<forall>rid \<in> set rids. ans rid = Returns \<Longrightarrow>
   syncLoop_join ans rids s = (Returns, s\<lparr>trace := trace s @ map Join rids\<rparr>)"
proof (induction rids arbitrary: s)
  case Nil
  then show ?case by simp
next
  case (Cons rid rids)
  have "syncLoop_join ans (rid # rids) s = syncLoop_join ans rids (emit (Join rid) s)"
    using Cons.prems by (simp add: joinRoomAsync_def)
  also have "\<dots> = (Returns, (emit (Join rid) s)\<lparr>trace := trace (emit (Join rid) s) @ map Join rids\<rparr>)"
    using Cons.prems by (intro Cons.IH) (simp_all add: emit_def)
  finally show ?case by (simp add: emit_def)
qed

lemma join_append:
  "syncLoop_join ans (pre @ rids) s =
     (case syncLoop_join ans pre s of
        (Throws x, s1) \<Rightarrow> (Throws x, s1)
      | (Returns, s1) \<Rightarrow> syncLoop_join ans rids s1)"
  by (induction pre arbitrary: s) (auto split: prod.splits completion.splits)

lemma catch_frame:
  "syncLoop_catch x s = (c, s') \<Longrightarrow>
     session_kept s s' \<and> since s' = since s \<and> running s' = running s \<and> seen s' = seen s"
  by (auto simp: syncLoop_catch_def session_kept_def emit_def Let_def split: option.splits completion.splits)


text \<open>
  Claim C7. Identifiers that are pairwise different and not in the window are inserted
  one after the other, each insertion followed by the eviction pass, into a window \<open>w\<close>
  that holds at most \<open>MAX_SEEN = 1000\<close> members. After each of the steps the window has
  at most 1000 members and contains the 1000 identifiers inserted last (all of them while
  fewer have been inserted); it is exactly the last 1000 of everything inserted so far.
  Each eviction pass leaves the window without its \<open>size - MAX_SEEN\<close> oldest members and
  removes nothing else.
\<close>

theorem dedup_window_eviction_bound:
  assumes "distinct w" and "length w \<le> MAX_SEEN" and "distinct ids" and "set ids \<inter> set w = {}"
  shows "\<forall>k \<le> length ids.
           (let wk = foldl (\<lambda>w i. evictOldSeen (set_add i w)) w (take k ids) in
              length wk \<le> MAX_SEEN \<and>
              set (drop (k - MAX_SEEN) (take k ids)) \<subseteq> set wk \<and>
              wk = drop (length w + k - MAX_SEEN) (w @ take k ids) \<and>
              (k < length ids \<longrightarrow>
                 evictOldSeen (set_add (ids ! k) wk)
                   = drop (Suc (length wk) - MAX_SEEN) (wk @ [ids ! k])))"
proof (intro allI impI)
  fix k
  assume k: "k \<le> length ids"
  let ?t = "take k ids"
  let ?wk = "foldl (\<lambda>w i. evictOldSeen (set_add i w)) w ?t"
  have dt: "distinct ?t" using assms(3) by simp
  have "set ?t \<subseteq> set ids" by (rule set_take_subset)
  then have disj: "set ?t \<inter> set w = {}" using assms(4) by auto
  have wk: "?wk = drop (length w + k - MAX_SEEN) (w @ ?t)"
    using insert_all_drop [OF assms(1) dt disj assms(2)] k by simp
  have len: "length ?wk \<le> MAX_SEEN" unfolding wk using k by simp
  have "drop (length w + k - MAX_SEEN) (w @ ?t)
          = drop (length w + k - MAX_SEEN) w @ drop (k - MAX_SEEN) ?t"
    by simp
  then have recent: "set (drop (k - MAX_SEEN) ?t) \<subseteq> set ?wk" unfolding wk by simp
  have pass: "evictOldSeen (set_add (ids ! k) ?wk)
                = drop (Suc (length ?wk) - MAX_SEEN) (?wk @ [ids ! k])" if lt: "k < length ids"
  proof -
    have "ids ! k \<notin> set ?t" using assms(3) lt
      by (metis id_take_nth_drop distinct_append disjoint_iff list.set_intros(1))
    moreover have "ids ! k \<notin> set w" using assms(4) lt by (metis disjoint_iff nth_mem)
    moreover have "set ?wk \<subseteq> set (w @ ?t)" unfolding wk by (rule set_drop_subset)
    ultimately have fresh: "ids ! k \<notin> set ?wk" by auto
    have "distinct (w @ ?t)" using assms(1) dt disj by auto
    then have "distinct ?wk" unfolding wk by (rule distinct_drop)
    with fresh have "distinct (?wk @ [ids ! k])" by simp
    then show ?thesis using fresh by (simp add: evictOldSeen_drop set_add_def)
  qed
  show "let wk = ?wk in
          length wk \<le> MAX_SEEN \<and>
          set (drop (k - MAX_SEEN) (take k ids)) \<subseteq> set wk \<and>
          wk = drop (length w + k - MAX_SEEN) (w @ take k ids) \<and>
          (k < length ids \<longrightarrow>
             evictOldSeen (set_add (ids ! k) wk)
               = drop (Suc (length wk) - MAX_SEEN) (wk @ [ids ! k]))"
    unfolding Let_def using len recent wk pass by blast
qed

lemma distinct_ex_ids: "distinct ex_ids"
proof -
  have "inj_on (\<lambda>n. replicate n CHR ''x'') (set [1..<1002])"
    by (rule inj_onI) (drule arg_cong [where f = length], simp)
  then show ?thesis by (simp add: ex_ids_def distinct_map)
qed

theorem dedup_window_eviction_bound_witness:
  "distinct ex_ids \<and> length ex_ids = 1001 \<and>
   length (foldl (\<lambda>w i. evictOldSeen (set_add i w)) [] ex_ids) = 1000 \<and>
   foldl (\<lambda>w i. evictOldSeen (set_add i w)) [] ex_ids = tl ex_ids \<and>
   set (drop 1 ex_ids) \<subseteq> set (foldl (\<lambda>w i. evictOldSeen (set_add i w)) [] ex_ids)"
proof -
  have len: "length ex_ids = 1001" by (simp add: ex_ids_def)
  have h: "\<forall>k \<le> length ex_ids.
           (let wk = foldl (\<lambda>w i. evictOldSeen (set_add i w)) [] (take k ex_ids) in
              length wk \<le> MAX_SEEN \<and>
              set (drop (k - MAX_SEEN) (take k ex_ids)) \<subseteq> set wk \<and>
              wk = drop (length ([]::string list) + k - MAX_SEEN) ([] @ take k ex_ids) \<and>
              (k < length ex_ids \<longrightarrow>
                 evictOldSeen (set_add (ex_ids ! k) wk)
                   = drop (Suc (length wk) - MAX_SEEN) (wk @ [ex_ids ! k])))"
    using dedup_window_eviction_bound [of "[]" ex_ids] distinct_ex_ids by simp
  have "let wk = foldl (\<lambda>w i. evictOldSeen (set_add i w)) [] (take 1001 ex_ids) in
              length wk \<le> MAX_SEEN \<and>
              set (drop (1001 - MAX_SEEN) (take 1001 ex_ids)) \<subseteq> set wk \<and>
              wk = drop (length ([]::string list) + 1001 - MAX_SEEN) ([] @ take 1001 ex_ids) \<and>
              (1001 < length ex_ids \<longrightarrow>
                 evictOldSeen (set_add (ex_ids ! 1001) wk)
                   = drop (Suc (length wk) - MAX_SEEN) (wk @ [ex_ids ! 1001]))"
    using h len by (metis order_refl)
  then have eq: "foldl (\<lambda>w i. evictOldSeen (set_add i w)) [] ex_ids = drop 1 ex_ids"
    using len by (simp add: Let_def MAX_SEEN_def)
  show ?thesis using distinct_ex_ids len eq by (simp add: drop_Suc)
qed

section \<open>Evaluating the examples\<close>

lemmas eval_defs = processEventsAsync_def processEvents_body_def handleExitAsync_def stop_def emit_def
  set_has_def set_add_def evictOldSeen_def MAX_SEEN_def Let_def
  textEvent_def ex_state_def ex_config_def ex_boom_def

lemma toLowerCase_examples:
  "toLowerCase ''exit'' = ''exit''" "toLowerCase ''EXIT'' = ''exit''"
  "toLowerCase ''hi'' = ''hi''" "toLowerCase ''hello'' = ''hello''"
  by code_simp+

section \<open>Events the filter passes over\<close>

lemma body_filtered:
  assumes "sender ev = Some botId \<or> sender ev \<noteq> Some (humanUserId cfg)"
  shows "processEvents_body cfg botId ev s = (Continue, s\<lparr>seen := noted ev (seen s)\<rparr>)"
  using assms
  by (auto simp: processEvents_body_def noted_def set_has_def Let_def split: option.splits)


text \<open>
  Claim C8. In an initialized session, an event whose sender is the bot's own identity,
  or is anything other than the configured human identity (an absent sender included),
  passes through the filter with no effect but the recording of its identifier in the
  dedup window: no callback is invoked, \<open>running\<close> is not touched, and the loop goes
  on to the next event of the batch. This holds whatever the event's type and body are,
  \<^verbatim>\<open>exit\<close> included.
\<close>

theorem sender_filter:
  assumes "config s = Some cfg" and "botUserId s = Some botId" and "botId \<noteq> []"
    and "sender ev = Some botId \<or> sender ev \<noteq> Some (humanUserId cfg)"
  shows "processEventsAsync [ev] s = (Returns, s\<lparr>seen := noted ev (seen s)\<rparr>) \<and>
         processEventsAsync (ev # evs) s = processEventsAsync evs (s\<lparr>seen := noted ev (seen s)\<rparr>)"
  using assms(1-3) body_filtered [OF assms(4)]
  by (simp add: processEventsAsync_def)

theorem sender_filter_witness:
  "processEventsAsync [textEvent ''e1'' ''@bot:x'' ''exit''] ex_state = (Returns, ex_state\<lparr>seen := [''e1'']\<rparr>) \<and>
   processEventsAsync [textEvent ''e2'' ''@eve:x'' ''EXIT''] ex_state = (Returns, ex_state\<lparr>seen := [''e2'']\<rparr>)"
proof -
  have c: "config ex_state = Some ex_config" and b: "botUserId ex_state = Some ''@bot:x''"
    by (simp_all add: ex_state_def)
  have n: "''@bot:x'' \<noteq> []" by simp
  have h1: "sender (textEvent ''e1'' ''@bot:x'' ''exit'') = Some ''@bot:x'' \<or>
            sender (textEvent ''e1'' ''@bot:x'' ''exit'') \<noteq> Some (humanUserId ex_config)"
    by (simp add: textEvent_def)
  have h2: "sender (textEvent ''e2'' ''@eve:x'' ''EXIT'') = Some ''@bot:x'' \<or>
            sender (textEvent ''e2'' ''@eve:x'' ''EXIT'') \<noteq> Some (humanUserId ex_config)"
    by (simp add: textEvent_def ex_config_def)
  have s0: "seen ex_state = []" by (simp add: ex_state_def)
  have n1: "noted (textEvent ''e1'' ''@bot:x'' ''exit'') [] = [''e1'']"
    by (simp add: noted_def textEvent_def set_add_def evictOldSeen_def MAX_SEEN_def)
  have n2: "noted (textEvent ''e2'' ''@eve:x'' ''EXIT'') [] = [''e2'']"
    by (simp add: noted_def textEvent_def set_add_def evictOldSeen_def MAX_SEEN_def)
  show ?thesis
    using sender_filter [OF c b n h1, of "[]"] sender_filter [OF c b n h2, of "[]"] s0 n1 n2
    by simp
qed

section \<open>How long an identifier stays in the window\<close>












section \<open>Termination requests\<close>

text \<open>
  Claim C5, as the code has it. The exported \<open>stop\<close> only clears \<open>running\<close>: it
  invokes no callback, and on a stopped session it changes nothing. A termination signal
  (\<open>shutdownAsync\<close>) invokes the exit callback if one is registered, whether the session
  is running or not, and clears \<open>running\<close> afterwards, when the callback has returned
  normally; if the callback throws, \<open>running\<close> is left as it was.
\<close>

theorem termination_request:
  "stop s = s\<lparr>running := False\<rparr> \<and>
   (\<not> running s \<longrightarrow> stop s = s) \<and>
   (exitCallback s = None \<longrightarrow> shutdownAsync s = (Returns, s\<lparr>running := False\<rparr>)) \<and>
   (\<forall>cb. exitCallback s = Some cb \<longrightarrow> cb () = Returns \<longrightarrow>
      shutdownAsync s = (Returns, s\<lparr>trace := trace s @ [CallExit], running := False\<rparr>)) \<and>
   (\<forall>cb x. exitCallback s = Some cb \<longrightarrow> cb () = Throws x \<longrightarrow>
      shutdownAsync s = (Throws x, s\<lparr>trace := trace s @ [CallExit]\<rparr>))"
  by (auto simp: stop_def shutdownAsync_def emit_def)

theorem termination_request_witness:
  "shutdownAsync ex_state = (Returns, ex_state\<lparr>trace := [CallExit], running := False\<rparr>) \<and>
   stop (ex_state\<lparr>running := False\<rparr>) = ex_state\<lparr>running := False\<rparr> \<and>
   shutdownAsync (ex_state\<lparr>exitCallback := Some (\<lambda>u. Throws ex_boom)\<rparr>)
     = (Throws ex_boom, ex_state\<lparr>exitCallback := Some (\<lambda>u. Throws ex_boom), trace := [CallExit]\<rparr>) \<and>
   shutdownAsync (ex_state\<lparr>exitCallback := None\<rparr>) = (Returns, ex_state\<lparr>exitCallback := None, running := False\<rparr>)"
  using termination_request [of ex_state] 
    termination_request [of "ex_state\<lparr>running := False\<rparr>"]
    termination_request [of "ex_state\<lparr>exitCallback := Some (\<lambda>u. Throws ex_boom)\<rparr>"]
    termination_request [of "ex_state\<lparr>exitCallback := None\<rparr>"]
  by (simp add: ex_state_def)

text \<open>
  Against claim C5 as stated: \<open>stop\<close> on a running session with an exit callback
  registered stops the session without invoking the callback, and a signal that arrives
  when the session is already stopped invokes the exit callback again.
\<close>

theorem stop_skips_exit_callback_counterexample:
  "running ex_state \<and> exitCallback ex_state \<noteq> None \<and>
   stop ex_state = ex_state\<lparr>running := False\<rparr> \<and> trace (stop ex_state) = [] \<and>
   shutdownAsync (stop ex_state) = (Returns, ex_state\<lparr>running := False, trace := [CallExit]\<rparr>)"
  by (simp add: ex_state_def stop_def shutdownAsync_def emit_def)

section \<open>The exit command\<close>

lemma body_exit:
  assumes "isExitCommand (humanUserId cfg) ev" and "event_id ev = Some i" and "i \<noteq> []"
    and "i \<notin> set (seen s)" and "humanUserId cfg \<noteq> botId"
  shows "processEvents_body cfg botId ev s =
     (case handleExitAsync (s\<lparr>seen := evictOldSeen (set_add i (seen s))\<rparr>) of
        (Throws x, s2) \<Rightarrow> (Raise x, s2)
      | (Returns, s2) \<Rightarrow> (Return, s2))"
proof -
  obtain c where c: "content ev = Some c" "msgtype c = Some ''m.text''"
    using assms(1) by (cases "content ev") (auto simp: isExitCommand_def)
  obtain bdy where bdy: "body c = Some bdy" "toLowerCase bdy = ''exit''"
    using assms(1) c by (cases "body c") (auto simp: isExitCommand_def)
  have "bdy \<noteq> []" using bdy(2) by (auto simp: toLowerCase_def)
  then show ?thesis
    using assms c bdy by (simp add: processEvents_body_def isExitCommand_def set_has_def Let_def)
qed

text \<open>
  Claim C3, as the code has it. In an initialized session, let a batch hold an exit
  command from the configured human (who is not the bot) with a new identifier, and let
  the loop reach it: the events before it were processed without an exception and
  without an earlier exit. Then the message callback is not invoked for the event, the
  exit callback is invoked if one is registered, and the events after it in the batch
  have no effect at all. If the exit callback is absent or returns normally,
  \<open>running\<close> becomes false; if it throws, the exception leaves \<open>processEventsAsync\<close> and
  \<open>running\<close> is left as it was.
\<close>

theorem exit_short_circuit:
  assumes "config s = Some cfg" and "botUserId s = Some botId" and "botId \<noteq> []"
    and "processEvents_for cfg botId pre s = (Continue, s1)"
    and "isExitCommand (humanUserId cfg) ev" and "humanUserId cfg \<noteq> botId"
    and "event_id ev = Some i" and "i \<noteq> []" and "i \<notin> set (seen s1)"
  shows "processEventsAsync (pre @ ev # post) s =
     (case exitCallback s of
        None \<Rightarrow> (Returns, s1\<lparr>seen := evictOldSeen (set_add i (seen s1)), running := False\<rparr>)
      | Some cb \<Rightarrow>
          (case cb () of
             Returns \<Rightarrow> (Returns, s1\<lparr>seen := evictOldSeen (set_add i (seen s1)),
                                      trace := trace s1 @ [CallExit], running := False\<rparr>)
           | Throws x \<Rightarrow> (Throws x, s1\<lparr>seen := evictOldSeen (set_add i (seen s1)),
                                        trace := trace s1 @ [CallExit]\<rparr>)))"
proof -
  have k: "exitCallback s1 = exitCallback s"
    using for_kept [OF assms(4)] by (simp add: session_kept_def)
  let ?s1' = "s1\<lparr>seen := evictOldSeen (set_add i (seen s1))\<rparr>"
  have b: "processEvents_body cfg botId ev s1 =
     (case handleExitAsync ?s1' of (Throws x, s2) \<Rightarrow> (Raise x, s2) | (Returns, s2) \<Rightarrow> (Return, s2))"
    using assms(5,7,8,9,6) by (rule body_exit)
  have f: "processEvents_for cfg botId (pre @ ev # post) s =
     (case handleExitAsync ?s1' of (Throws x, s2) \<Rightarrow> (Raise x, s2) | (Returns, s2) \<Rightarrow> (Return, s2))"
    using assms(4) b by (simp add: for_append split: prod.splits completion.splits)
  show ?thesis
    using assms(1-3) k
    by (simp add: processEventsAsync_def f handleExitAsync_cases split: option.splits completion.splits)
qed

theorem exit_short_circuit_witness:
  "processEventsAsync
     [textEvent ''e0'' ''@human:x'' ''hi'', textEvent ''e1'' ''@human:x'' ''EXIT'',
      textEvent ''e2'' ''@human:x'' ''hello'']
     ex_state
   = (Returns, ex_state\<lparr>seen := [''e0'', ''e1''],
                         trace := [CallMessage ''hi'' ''@human:x'', CallExit], running := False\<rparr>)"
proof -
  let ?s1 = "ex_state\<lparr>seen := [''e0''], trace := [CallMessage ''hi'' ''@human:x'']\<rparr>"
  have h: "config ex_state = Some ex_config" "botUserId ex_state = Some ''@bot:x''" "''@bot:x'' \<noteq> []"
    by (simp_all add: ex_state_def)
  have pre: "processEvents_for ex_config ''@bot:x'' [textEvent ''e0'' ''@human:x'' ''hi''] ex_state
               = (Continue, ?s1)"
    by (simp add: eval_defs toLowerCase_examples)
  have ex: "isExitCommand (humanUserId ex_config) (textEvent ''e1'' ''@human:x'' ''EXIT'')"
    by (simp add: isExitCommand_def eval_defs toLowerCase_examples)
  have ne: "humanUserId ex_config \<noteq> ''@bot:x''" by (simp add: ex_config_def)
  have i: "event_id (textEvent ''e1'' ''@human:x'' ''EXIT'') = Some ''e1''" "''e1'' \<noteq> []"
      "''e1'' \<notin> set (seen ?s1)"
    by (simp_all add: textEvent_def)
  show ?thesis
    using exit_short_circuit [OF h pre ex ne i, of "[textEvent ''e2'' ''@human:x'' ''hello'']"]
    by (simp add: eval_defs toLowerCase_examples)
qed

text \<open>
  Against claim C3 as stated: with an exit callback that throws, the exit command leaves
  the session running; the exception leaves \<open>processEventsAsync\<close>.
\<close>

theorem exit_short_circuit_counterexample:
  "processEventsAsync [textEvent ''e1'' ''@human:x'' ''exit'', textEvent ''e2'' ''@human:x'' ''hello'']
     (ex_state\<lparr>exitCallback := Some (\<lambda>u. Throws ex_boom)\<rparr>)
   = (Throws ex_boom,
      ex_state\<lparr>exitCallback := Some (\<lambda>u. Throws ex_boom), seen := [''e1''], trace := [CallExit]\<rparr>) \<and>
   running (ex_state\<lparr>exitCallback := Some (\<lambda>u. Throws ex_boom), seen := [''e1''], trace := [CallExit]\<rparr>)"
  by (simp add: eval_defs toLowerCase_examples)

section \<open>One iteration of the sync loop\<close>

lemmas loop_eval_defs = syncLoopAsync_def syncLoop_iteration_def syncLoop_try_def syncLoop_catch_def
  syncLoop_process_def syncOnceAsync_def apiAsync_def joinRoomAsync_def syncRequest_def truthy_def
  toError_def invitedRooms_def roomEvents_def ex_response_def ex_answers_def typeError_def

lemma syncRequest_long [simp]:
  "Sync c 0 \<noteq> syncRequest sinceToken 30000" "syncRequest sinceToken 30000 \<noteq> Sync c 0"
  by (simp_all add: syncRequest_def)

lemma try_poll_throws:
  assumes "config s = Some cfg" and "sync_answer a = ApiThrows x"
  shows "syncLoop_try cfg a s = (Throws x, s\<lparr>trace := trace s @ [syncRequest (since s) 30000]\<rparr>)"
  using assms by (simp add: syncLoop_try_def syncOnceAsync_def apiAsync_def emit_def)

lemma try_poll_null:
  assumes "config s = Some cfg" and "sync_answer a = ApiNull"
  shows "syncLoop_try cfg a s = (Throws typeError, s\<lparr>trace := trace s @ [syncRequest (since s) 30000]\<rparr>)"
  using assms by (simp add: syncLoop_try_def syncOnceAsync_def apiAsync_def emit_def)

lemma try_poll_json:
  assumes "config s = Some cfg" and "sync_answer a = ApiJson r"
  shows "syncLoop_try cfg a s =
     syncLoop_process cfg a r
       (s\<lparr>trace := trace s @ [syncRequest (since s) 30000],
          since := (if truthy (next_batch r) then next_batch r else since s)\<rparr>)"
  using assms by (simp add: syncLoop_try_def syncOnceAsync_def apiAsync_def emit_def)

lemma process_frame:
  assumes "syncLoop_process cfg a r s = (c, s')"
  shows "session_kept s s' \<and> since s' = since s \<and> (c \<noteq> Returns \<longrightarrow> running s' = running s)"
proof -
  obtain c1 s1 where j: "syncLoop_join (join_answer a) (invitedRooms r) s = (c1, s1)"
    by (cases "syncLoop_join (join_answer a) (invitedRooms r) s")
  note f1 = join_frame [OF j]
  show ?thesis
  proof (cases c1)
    case (Throws x)
    with assms j have "s' = s1" by (simp add: syncLoop_process_def)
    with f1 show ?thesis by simp
  next
    case Returns
    with assms j have p: "processEventsAsync (roomEvents r (roomId cfg)) s1 = (c, s')"
      by (simp add: syncLoop_process_def)
    have "session_kept s1 s'" using p by (rule processEventsAsync_kept)
    moreover have "since s' = since s1" using p by (rule processEventsAsync_since)
    moreover have "c \<noteq> Returns \<longrightarrow> running s' = running s1"
      using p by (cases c) (auto dest: processEventsAsync_throws_running)
    ultimately show ?thesis using f1 by (auto intro: session_kept_trans)
  qed
qed

lemma try_frame:
  assumes "config s = Some cfg" and "syncLoop_try cfg a s = (c, s1)"
  shows "session_kept s s1 \<and> since s1 = adopted a s \<and>
         (c \<noteq> Returns \<longrightarrow> running s1 = running s) \<and>
         (\<exists>t. trace s1 = trace s @ syncRequest (since s) 30000 # t)"
proof (cases "sync_answer a")
  case (ApiThrows x)
  with assms show ?thesis
    by (auto simp: try_poll_throws adopted_def session_kept_def)
next
  case ApiNull
  with assms show ?thesis
    by (auto simp: try_poll_null adopted_def session_kept_def)
next
  case (ApiJson r)
  let ?s0 = "s\<lparr>trace := trace s @ [syncRequest (since s) 30000],
          since := (if truthy (next_batch r) then next_batch r else since s)\<rparr>"
  have p: "syncLoop_process cfg a r ?s0 = (c, s1)"
    using assms ApiJson by (simp add: try_poll_json)
  note f = process_frame [OF p]
  have k0: "session_kept s ?s0" by (simp add: session_kept_def)
  have "session_kept s s1" using k0 f by (auto intro: session_kept_trans)
  moreover have "since s1 = adopted a s" using f ApiJson by (simp add: adopted_def)
  moreover have "c \<noteq> Returns \<longrightarrow> running s1 = running s" using f by simp
  moreover have "\<exists>t. trace s1 = trace s @ syncRequest (since s) 30000 # t"
    using f by (auto simp: session_kept_def)
  ultimately show ?thesis by simp
qed

lemma iteration_frame:
  assumes "config s = Some cfg" and "syncLoop_iteration cfg a s = (c, s2)"
  shows "session_kept s s2 \<and> since s2 = adopted a s \<and>
         (\<exists>t. trace s2 = trace s @ syncRequest (since s) 30000 # t)"
proof -
  obtain c1 s1 where t: "syncLoop_try cfg a s = (c1, s1)" by (cases "syncLoop_try cfg a s")
  note f = try_frame [OF assms(1) t]
  show ?thesis
  proof (cases c1)
    case Returns
    with assms(2) t have "s2 = s1" by (simp add: syncLoop_iteration_def)
    with f show ?thesis by simp
  next
    case (Throws x)
    with assms(2) t have "syncLoop_catch x s1 = (c, s2)" by (simp add: syncLoop_iteration_def)
    note g = catch_frame [OF this]
    have "session_kept s s2" using f g by (auto intro: session_kept_trans)
    moreover have "\<exists>t. trace s2 = trace s @ syncRequest (since s) 30000 # t"
      using f g by (auto simp: session_kept_def)
    ultimately show ?thesis using f g by simp
  qed
qed

lemma while_kept:
  assumes "config s = Some cfg"
  shows "session_kept s (snd (syncLoop_while cfg as s))"
  using assms
proof (induction as arbitrary: s)
  case Nil
  then show ?case by (simp add: session_kept_def emit_def)
next
  case (Cons a as)
  obtain c s2 where i: "syncLoop_iteration cfg a s = (c, s2)" by (cases "syncLoop_iteration cfg a s")
  have k: "session_kept s s2" using iteration_frame [OF Cons.prems i] by simp
  then have c2: "config s2 = Some cfg" using Cons.prems by (simp add: session_kept_def)
  show ?case
  proof (cases "running s")
    case False
    then show ?thesis by (simp add: session_kept_refl)
  next
    case True
    show ?thesis
    proof (cases c)
      case Returns
      then have "snd (syncLoop_while cfg (a # as) s) = snd (syncLoop_while cfg as s2)"
        using True i by simp
      then show ?thesis using k Cons.IH [OF c2] by (auto intro: session_kept_trans)
    next
      case (Throws x)
      then have "snd (syncLoop_while cfg (a # as) s) = s2" using True i by simp
      then show ?thesis using k by simp
    qed
  qed
qed

lemma while_first:
  assumes "config s = Some cfg" and "running s"
  shows "\<exists>t. trace (snd (syncLoop_while cfg as s)) = trace s @ syncRequest (since s) 30000 # t"
proof (cases as)
  case Nil
  then show ?thesis using assms by (simp add: emit_def)
next
  case (Cons a as')
  obtain c s2 where i: "syncLoop_iteration cfg a s = (c, s2)" by (cases "syncLoop_iteration cfg a s")
  note f = iteration_frame [OF assms(1) i]
  then obtain t where t: "trace s2 = trace s @ syncRequest (since s) 30000 # t" by blast
  have c2: "config s2 = Some cfg" using f assms(1) by (simp add: session_kept_def)
  show ?thesis
  proof (cases c)
    case Returns
    then have e: "snd (syncLoop_while cfg as s) = snd (syncLoop_while cfg as' s2)"
      using Cons assms(2) i by simp
    obtain u where "trace (snd (syncLoop_while cfg as' s2)) = trace s2 @ u"
      using while_kept [OF c2, of as'] by (auto simp: session_kept_def)
    then show ?thesis using e t by simp
  next
    case (Throws x)
    then have "snd (syncLoop_while cfg as s) = s2" using Cons assms(2) i by simp
    then show ?thesis using t by simp
  qed
qed

lemma catch_quiet:
  assumes "errorCallback s = None \<or> (\<exists>cb. errorCallback s = Some cb \<and> cb (toError x) = Returns)"
  shows "syncLoop_catch x s =
     (Returns, s\<lparr>trace := trace s @ (case errorCallback s of None \<Rightarrow> [] | Some cb \<Rightarrow> [CallError (toError x)])
                                  @ [Sleep 2000]\<rparr>)"
  using assms by (auto simp: syncLoop_catch_def emit_def Let_def)

lemma caught_and_retried:
  assumes "config s = Some cfg" and "running s" and "syncLoop_try cfg a s = (Throws x, s1)"
    and "errorCallback s = None \<or> (\<exists>cb. errorCallback s = Some cb \<and> cb (toError x) = Returns)"
    and "s2 = s1\<lparr>trace := trace s1 @ (case errorCallback s of None \<Rightarrow> [] | Some cb \<Rightarrow> [CallError (toError x)])
                                  @ [Sleep 2000]\<rparr>"
  shows "syncLoop_iteration cfg a s = (Returns, s2)"
    and "syncLoop_while cfg (a # as) s = syncLoop_while cfg as s2"
    and "running s2" and "since s2 = adopted a s"
    and "\<exists>t. trace (snd (syncLoop_while cfg (a # as) s)) = trace s2 @ syncRequest (adopted a s) 30000 # t"
proof -
  note f = try_frame [OF assms(1,3)]
  have e: "errorCallback s1 = errorCallback s" using f by (simp add: session_kept_def)
  have q: "errorCallback s1 = None \<or> (\<exists>cb. errorCallback s1 = Some cb \<and> cb (toError x) = Returns)"
    using assms(4) e by simp
  show i: "syncLoop_iteration cfg a s = (Returns, s2)"
    using assms(3,5) catch_quiet [OF q] e by (simp add: syncLoop_iteration_def)
  show w: "syncLoop_while cfg (a # as) s = syncLoop_while cfg as s2"
    using assms(2) i by simp
  show r: "running s2" using f assms(2,5) by simp
  show c: "since s2 = adopted a s" using f assms(5) by simp
  have "config s2 = Some cfg" using f assms(1,5) by (simp add: session_kept_def)
  from while_first [OF this r, of as] c w
  show "\<exists>t. trace (snd (syncLoop_while cfg (a # as) s)) = trace s2 @ syncRequest (adopted a s) 30000 # t"
    by simp
qed

lemma caught_and_reported:
  assumes "config s = Some cfg" and "syncLoop_try cfg a s = (Throws x, s1)"
  shows "syncLoop_iteration cfg a s = syncLoop_catch x s1"
    and "\<forall>cb. errorCallback s = Some cb \<longrightarrow>
           (\<exists>t. trace (snd (syncLoop_iteration cfg a s)) = trace s1 @ CallError (toError x) # t)"
    and "running (snd (syncLoop_iteration cfg a s)) = running s"
    and "since s1 = adopted a s"
proof -
  note f = try_frame [OF assms]
  have e: "errorCallback s1 = errorCallback s" using f by (simp add: session_kept_def)
  show i: "syncLoop_iteration cfg a s = syncLoop_catch x s1"
    using assms(2) by (simp add: syncLoop_iteration_def)
  have "\<exists>t. trace (snd (syncLoop_catch x s1)) = trace s1 @ CallError (toError x) # t"
    if "errorCallback s = Some cb" for cb
    using that e by (cases "cb (toError x)") (simp_all add: syncLoop_catch_def emit_def Let_def)
  then show "\<forall>cb. errorCallback s = Some cb \<longrightarrow>
           (\<exists>t. trace (snd (syncLoop_iteration cfg a s)) = trace s1 @ CallError (toError x) # t)"
    unfolding i by blast
  have "running (snd (syncLoop_catch x s1)) = running s1"
    using catch_frame [of x s1 "fst (syncLoop_catch x s1)" "snd (syncLoop_catch x s1)"] by simp
  then show "running (snd (syncLoop_iteration cfg a s)) = running s"
    unfolding i using f by simp
  show "since s1 = adopted a s" using f by simp
qed




text \<open>
  Claim C6. When the poll of an iteration succeeds with a non-empty \<^verbatim>\<open>next_batch\<close>
  \<open>t2\<close>, the joins and the processing of the batch start from a session whose cursor is
  already \<open>t2\<close>; the cursor is \<open>t2\<close> when the \<^verbatim>\<open>try\<close> block is left and when the
  iteration is over, however they end; and if the loop goes on, its next step is a sync
  request with \<open>since = t2\<close>.
\<close>

theorem cursor_adopted_first:
  assumes "config s = Some cfg" and "sync_answer a = ApiJson r"
    and "next_batch r = Some t2" and "t2 \<noteq> []"
  shows "syncLoop_try cfg a s =
           syncLoop_process cfg a r
             (s\<lparr>trace := trace s @ [syncRequest (since s) 30000], since := Some t2\<rparr>) \<and>
         since (snd (syncLoop_try cfg a s)) = Some t2 \<and>
         since (snd (syncLoop_iteration cfg a s)) = Some t2 \<and>
         (running s \<longrightarrow> fst (syncLoop_iteration cfg a s) = Returns \<longrightarrow>
          running (snd (syncLoop_iteration cfg a s)) \<longrightarrow>
            (\<exists>t. trace (snd (syncLoop_while cfg (a # as) s))
                   = trace (snd (syncLoop_iteration cfg a s)) @ Sync (Some t2) 30000 # t))"
proof (intro conjI impI)
  have ad: "adopted a s = Some t2" using assms(2-4) by (simp add: adopted_def truthy_def)
  show "syncLoop_try cfg a s =
           syncLoop_process cfg a r
             (s\<lparr>trace := trace s @ [syncRequest (since s) 30000], since := Some t2\<rparr>)"
    using try_poll_json [OF assms(1,2)] assms(3,4) by (simp add: truthy_def)
  obtain c1 s1 where t: "syncLoop_try cfg a s = (c1, s1)" by (cases "syncLoop_try cfg a s")
  show "since (snd (syncLoop_try cfg a s)) = Some t2"
    using try_frame [OF assms(1) t] t ad by simp
  obtain c2 s2 where i: "syncLoop_iteration cfg a s = (c2, s2)"
    by (cases "syncLoop_iteration cfg a s")
  note f = iteration_frame [OF assms(1) i]
  show "since (snd (syncLoop_iteration cfg a s)) = Some t2" using f i ad by simp
  assume run: "running s" and ok: "fst (syncLoop_iteration cfg a s) = Returns"
    and run2: "running (snd (syncLoop_iteration cfg a s))"
  have c2: "config s2 = Some cfg" using f assms(1) by (simp add: session_kept_def)
  have w: "syncLoop_while cfg (a # as) s = syncLoop_while cfg as s2" using run ok i by simp
  have "syncRequest (since s2) 30000 = Sync (Some t2) 30000"
    using f ad assms(4) by (simp add: syncRequest_def truthy_def)
  then show "\<exists>t. trace (snd (syncLoop_while cfg (a # as) s))
                   = trace (snd (syncLoop_iteration cfg a s)) @ Sync (Some t2) 30000 # t"
    using while_first [OF c2, of as] run2 i w by simp
qed

theorem cursor_adopted_first_witness:
  "since (snd (syncLoop_iteration ex_config
       (ex_answers (ApiJson (ex_response ''T2'' [] [textEvent ''e1'' ''@human:x'' ''hi''])))
       (ex_state\<lparr>messageCallback := Some (\<lambda>message sndr. Throws ex_boom)\<rparr>))) = Some ''T2'' \<and>
   (\<exists>t. trace (snd (syncLoop_while ex_config
              [ex_answers (ApiJson (ex_response ''T2'' [] [textEvent ''e1'' ''@human:x'' ''hi'']))]
              (ex_state\<lparr>messageCallback := Some (\<lambda>message sndr. Throws ex_boom)\<rparr>)))
        = [Sync (Some ''T1'') 30000, CallMessage ''hi'' ''@human:x'', CallError ex_boom, Sleep 2000]
            @ Sync (Some ''T2'') 30000 # t)"
proof -
  let ?r = "ex_response ''T2'' [] [textEvent ''e1'' ''@human:x'' ''hi'']"
  let ?s = "ex_state\<lparr>messageCallback := Some (\<lambda>message sndr. Throws ex_boom)\<rparr>"
  have h: "config ?s = Some ex_config" "sync_answer (ex_answers (ApiJson ?r)) = ApiJson ?r"
      "next_batch ?r = Some ''T2''" "''T2'' \<noteq> []"
    by (simp_all add: ex_state_def ex_answers_def ex_response_def)
  have i: "syncLoop_iteration ex_config (ex_answers (ApiJson ?r)) ?s
     = (Returns, ex_state\<lparr>messageCallback := Some (\<lambda>message sndr. Throws ex_boom), since := Some ''T2'',
          seen := [''e1''],
          trace := [Sync (Some ''T1'') 30000, CallMessage ''hi'' ''@human:x'', CallError ex_boom,
                    Sleep 2000]\<rparr>)"
    by (simp add: loop_eval_defs eval_defs toLowerCase_examples)
  have r: "running ?s" "fst (syncLoop_iteration ex_config (ex_answers (ApiJson ?r)) ?s) = Returns"
      "running (snd (syncLoop_iteration ex_config (ex_answers (ApiJson ?r)) ?s))"
    unfolding i by (simp_all add: ex_state_def)
  note c = cursor_adopted_first [OF h, of "[]"]
  have "since (snd (syncLoop_iteration ex_config (ex_answers (ApiJson ?r)) ?s)) = Some ''T2''"
    using c by simp
  moreover have "\<exists>t. trace (snd (syncLoop_while ex_config [ex_answers (ApiJson ?r)] ?s))
                   = trace (snd (syncLoop_iteration ex_config (ex_answers (ApiJson ?r)) ?s))
                       @ Sync (Some ''T2'') 30000 # t"
    using c r by blast
  ultimately show ?thesis unfolding i by simp
qed

lemma join_fails_at:
  assumes "config s = Some cfg" and "\<forall>p \<in> set pre. ans p = Returns" and "ans rid = Throws x"
  shows "syncLoop_join ans (pre @ rid # post) s
           = (Throws x, s\<lparr>trace := trace s @ map Join pre @ [Join rid]\<rparr>)"
  using assms by (simp add: join_append join_all_return joinRoomAsync_def emit_def)

text \<open>
  Claim C4, as the code has it. When the join request for an invited room fails, after
  the joins for the rooms before it have succeeded, the exception leaves the \<^verbatim>\<open>try\<close>
  block at once, with the cursor already set: the rooms after it are not joined, the
  events of the configured room are not processed (the dedup window is as it was, no
  callback was invoked), and the catch block takes over, which reports the failure to the
  error callback if one is registered.
\<close>

theorem join_failure_aborts_iteration:
  assumes "config s = Some cfg" and "sync_answer a = ApiJson r"
    and "invitedRooms r = pre @ rid # post"
    and "\<forall>p \<in> set pre. join_answer a p = Returns" and "join_answer a rid = Throws x"
  shows "let s1 = s\<lparr>since := (if truthy (next_batch r) then next_batch r else since s),
                      trace := trace s @ syncRequest (since s) 30000 # map Join pre @ [Join rid]\<rparr>
         in syncLoop_try cfg a s = (Throws x, s1) \<and>
            syncLoop_iteration cfg a s = syncLoop_catch x s1 \<and>
            (\<forall>cb. errorCallback s = Some cb \<longrightarrow>
               (\<exists>t. trace (snd (syncLoop_iteration cfg a s)) = trace s1 @ CallError (toError x) # t))"
proof -
  let ?s0 = "s\<lparr>trace := trace s @ [syncRequest (since s) 30000],
          since := (if truthy (next_batch r) then next_batch r else since s)\<rparr>"
  let ?s1 = "s\<lparr>since := (if truthy (next_batch r) then next_batch r else since s),
                      trace := trace s @ syncRequest (since s) 30000 # map Join pre @ [Join rid]\<rparr>"
  have c0: "config ?s0 = Some cfg" using assms(1) by simp
  have "syncLoop_join (join_answer a) (invitedRooms r) ?s0 = (Throws x, ?s1)"
    unfolding assms(3) using join_fails_at [OF c0 assms(4,5), of post] by simp
  then have t: "syncLoop_try cfg a s = (Throws x, ?s1)"
    using try_poll_json [OF assms(1,2)] by (simp add: syncLoop_process_def)
  then have i: "syncLoop_iteration cfg a s = syncLoop_catch x ?s1"
    by (simp add: syncLoop_iteration_def)
  have "\<exists>t. trace (snd (syncLoop_catch x ?s1)) = trace ?s1 @ CallError (toError x) # t"
    if "errorCallback s = Some cb" for cb
    using that by (cases "cb (toError x)") (simp_all add: syncLoop_catch_def emit_def Let_def)
  then have e: "\<forall>cb. errorCallback s = Some cb \<longrightarrow>
      (\<exists>t. trace (snd (syncLoop_iteration cfg a s)) = trace ?s1 @ CallError (toError x) # t)"
    unfolding i by blast
  show ?thesis unfolding Let_def using t i e by blast
qed

theorem join_failure_aborts_iteration_witness:
  "syncLoop_try ex_config
     \<lparr> sync_answer = ApiJson (ex_response ''T2'' [''!c:x'', ''!a:x'', ''!b:x''] [textEvent ''e1'' ''@human:x'' ''hi'']),
       join_answer = ex_failing_join \<rparr>
     ex_state
   = (Throws ex_boom, ex_state\<lparr>since := Some ''T2'',
        trace := [Sync (Some ''T1'') 30000, Join ''!c:x'', Join ''!a:x'']\<rparr>)"
proof -
  let ?r = "ex_response ''T2'' [''!c:x'', ''!a:x'', ''!b:x''] [textEvent ''e1'' ''@human:x'' ''hi'']"
  let ?a = "\<lparr> sync_answer = ApiJson ?r, join_answer = ex_failing_join \<rparr>"
  have h: "config ex_state = Some ex_config" "sync_answer ?a = ApiJson ?r"
     "invitedRooms ?r = [''!c:x''] @ ''!a:x'' # [''!b:x'']"
     "\<forall>p \<in> set [''!c:x'']. join_answer ?a p = Returns" "join_answer ?a ''!a:x'' = Throws ex_boom"
    by (simp_all add: ex_state_def invitedRooms_def ex_response_def ex_failing_join_def)
  show ?thesis
    using join_failure_aborts_iteration [OF h]
    by (simp add: Let_def ex_state_def ex_response_def syncRequest_def truthy_def)
qed

text \<open>
  Against claim C4 as stated: invited to two rooms, with the join of the first failing,
  the iteration sends no join request for the second and does not dispatch the message
  that came with the same response; the next poll already carries the new cursor.
\<close>

theorem join_failure_aborts_iteration_counterexample:
  "syncLoopAsync
     [\<lparr> sync_answer = ApiJson (ex_response ''T2'' [''!a:x'', ''!b:x''] [textEvent ''e1'' ''@human:x'' ''hi'']),
        join_answer = ex_failing_join \<rparr>]
     ex_state
   = (Polling, ex_state\<lparr>since := Some ''T2'',
        trace := [Sync (Some ''T1'') 30000, Join ''!a:x'', CallError ex_boom, Sleep 2000,
                  Sync (Some ''T2'') 30000]\<rparr>)"
  by (simp add: loop_eval_defs eval_defs ex_failing_join_def)

text \<open>
  Claim C10, as the code has it. In a running, initialized session, let the joins of an
  iteration succeed and the loop over the room's events reach an exit command from the
  configured human, and let the registered exit callback throw \<open>x\<close>. Then \<open>x\<close> leaves
  the \<^verbatim>\<open>try\<close> block with \<open>running\<close> still true, the catch block takes over and reports
  \<open>x\<close> to the error callback if one is registered, and the session is still running when
  the iteration is over, however it ends. If the error callback is absent or returns
  normally, the 2000 ms back-off follows and the loop goes on with its next sync request.
\<close>

theorem throwing_exit_callback:
  assumes "config s = Some cfg" and "botUserId s = Some botId" and "botId \<noteq> []" and "running s"
    and "sync_answer a = ApiJson r"
    and "syncLoop_join (join_answer a) (invitedRooms r)
           (s\<lparr>trace := trace s @ [syncRequest (since s) 30000],
              since := (if truthy (next_batch r) then next_batch r else since s)\<rparr>) = (Returns, sj)"
    and "roomEvents r (roomId cfg) = pre @ ev # post"
    and "processEvents_for cfg botId pre sj = (Continue, s1)"
    and "isExitCommand (humanUserId cfg) ev" and "humanUserId cfg \<noteq> botId"
    and "event_id ev = Some i" and "i \<noteq> []" and "i \<notin> set (seen s1)"
    and "exitCallback s = Some cb" and "cb () = Throws x"
  shows "let s1' = s1\<lparr>seen := evictOldSeen (set_add i (seen s1)), trace := trace s1 @ [CallExit]\<rparr>
         in syncLoop_try cfg a s = (Throws x, s1') \<and> running s1' \<and>
            syncLoop_iteration cfg a s = syncLoop_catch x s1' \<and>
            running (snd (syncLoop_iteration cfg a s)) \<and>
            (\<forall>ecb. errorCallback s = Some ecb \<longrightarrow>
               (\<exists>t. trace (snd (syncLoop_iteration cfg a s)) = trace s1' @ CallError (toError x) # t)) \<and>
            (errorCallback s = None \<or> (\<exists>ecb. errorCallback s = Some ecb \<and> ecb (toError x) = Returns) \<longrightarrow>
               (let s2 = s1'\<lparr>trace := trace s1' @ (case errorCallback s of None \<Rightarrow> []
                                                   | Some ecb \<Rightarrow> [CallError (toError x)]) @ [Sleep 2000]\<rparr>
                in syncLoop_iteration cfg a s = (Returns, s2) \<and>
                   syncLoop_while cfg (a # as) s = syncLoop_while cfg as s2 \<and>
                   (\<exists>t. trace (snd (syncLoop_while cfg (a # as) s))
                          = trace s2 @ syncRequest (since s2) 30000 # t)))"
proof -
  let ?s0 = "s\<lparr>trace := trace s @ [syncRequest (since s) 30000],
              since := (if truthy (next_batch r) then next_batch r else since s)\<rparr>"
  let ?s1' = "s1\<lparr>seen := evictOldSeen (set_add i (seen s1))\<rparr>"
  let ?s1'' = "s1\<lparr>seen := evictOldSeen (set_add i (seen s1)), trace := trace s1 @ [CallExit]\<rparr>"
  have k0: "session_kept s ?s0" by (simp add: session_kept_def)
  have kj: "session_kept ?s0 sj" using join_frame [OF assms(6)] by simp
  have k1: "session_kept sj s1" using assms(8) by (rule for_kept)
  have ksj: "session_kept s sj" using k0 kj by (rule session_kept_trans)
  have ks1: "session_kept s s1" using ksj k1 by (rule session_kept_trans)
  have cj: "config sj = Some cfg" "botUserId sj = Some botId"
    using ksj assms(1,2) by (simp_all add: session_kept_def)
  have ex1: "exitCallback s1 = Some cb" using ks1 assms(14) by (simp add: session_kept_def)
  have b: "processEvents_body cfg botId ev s1 =
     (case handleExitAsync ?s1' of (Throws x, s2) \<Rightarrow> (Raise x, s2) | (Returns, s2) \<Rightarrow> (Return, s2))"
    using assms(9,11,12,13,10) by (rule body_exit)
  have h: "handleExitAsync ?s1' = (Throws x, ?s1'')"
    using ex1 assms(15) by (simp add: handleExitAsync_cases)
  have "processEvents_for cfg botId (pre @ ev # post) sj = (Raise x, ?s1'')"
    using assms(8) b h by (simp add: for_append)
  then have "processEventsAsync (roomEvents r (roomId cfg)) sj = (Throws x, ?s1'')"
    using cj assms(3,7) by (simp add: processEventsAsync_def)
  then have t: "syncLoop_try cfg a s = (Throws x, ?s1'')"
    using try_poll_json [OF assms(1,5)] assms(6) by (simp add: syncLoop_process_def)
  have run1: "running ?s1''" using try_frame [OF assms(1) t] assms(4) by simp
  note rp = caught_and_reported [OF assms(1) t]
  have run2: "running (snd (syncLoop_iteration cfg a s))" using rp(3) assms(4) by simp
  let ?s2 = "?s1''\<lparr>trace := trace ?s1'' @ (case errorCallback s of None \<Rightarrow> []
                         | Some ecb \<Rightarrow> [CallError (toError x)]) @ [Sleep 2000]\<rparr>"
  have cont: "syncLoop_iteration cfg a s = (Returns, ?s2) \<and>
              syncLoop_while cfg (a # as) s = syncLoop_while cfg as ?s2 \<and>
              (\<exists>t. trace (snd (syncLoop_while cfg (a # as) s)) = trace ?s2 @ syncRequest (since ?s2) 30000 # t)"
    if q: "errorCallback s = None \<or> (\<exists>ecb. errorCallback s = Some ecb \<and> ecb (toError x) = Returns)"
  proof -
    note c = caught_and_retried [OF assms(1,4) t q refl]
    show ?thesis using c(1) c(2) [of as] c(5) [of as] c(4) by simp
  qed
  show ?thesis unfolding Let_def using t run1 rp(1,2) run2 cont by blast
qed

theorem throwing_exit_callback_witness:
  "syncLoopAsync
     [ex_answers (ApiJson (ex_response ''T2'' [''!a:x'']
        [textEvent ''e0'' ''@human:x'' ''hi'', textEvent ''e1'' ''@human:x'' ''EXIT'',
         textEvent ''e2'' ''@human:x'' ''hello'']))]
     (ex_state\<lparr>exitCallback := Some (\<lambda>u. Throws ex_boom)\<rparr>)
   = (Polling,
      ex_state\<lparr>exitCallback := Some (\<lambda>u. Throws ex_boom), since := Some ''T2'',
                seen := [''e0'', ''e1''],
                trace := [Sync (Some ''T1'') 30000, Join ''!a:x'', CallMessage ''hi'' ''@human:x'',
                          CallExit, CallError ex_boom, Sleep 2000, Sync (Some ''T2'') 30000]\<rparr>)"
proof -
  let ?evs = "[textEvent ''e0'' ''@human:x'' ''hi'', textEvent ''e1'' ''@human:x'' ''EXIT'',
         textEvent ''e2'' ''@human:x'' ''hello'']"
  let ?r = "ex_response ''T2'' [''!a:x''] ?evs"
  let ?a = "ex_answers (ApiJson ?r)"
  let ?s = "ex_state\<lparr>exitCallback := Some (\<lambda>u. Throws ex_boom)\<rparr>"
  let ?sj = "?s\<lparr>since := Some ''T2'', trace := [Sync (Some ''T1'') 30000, Join ''!a:x'']\<rparr>"
  let ?s1 = "?sj\<lparr>seen := [''e0''],
                 trace := [Sync (Some ''T1'') 30000, Join ''!a:x'', CallMessage ''hi'' ''@human:x'']\<rparr>"
  have h1: "config ?s = Some ex_config" "botUserId ?s = Some ''@bot:x''" "''@bot:x'' \<noteq> []" "running ?s"
     "sync_answer ?a = ApiJson ?r"
    by (simp_all add: ex_state_def ex_answers_def)
  have h2: "syncLoop_join (join_answer ?a) (invitedRooms ?r)
           (?s\<lparr>trace := trace ?s @ [syncRequest (since ?s) 30000],
              since := (if truthy (next_batch ?r) then next_batch ?r else since ?s)\<rparr>) = (Returns, ?sj)"
    by (simp add: loop_eval_defs eval_defs)
  have h3: "roomEvents ?r (roomId ex_config)
              = [textEvent ''e0'' ''@human:x'' ''hi''] @ textEvent ''e1'' ''@human:x'' ''EXIT''
                  # [textEvent ''e2'' ''@human:x'' ''hello'']"
    by (simp add: loop_eval_defs eval_defs)
  have h4: "processEvents_for ex_config ''@bot:x'' [textEvent ''e0'' ''@human:x'' ''hi''] ?sj = (Continue, ?s1)"
    by (simp add: eval_defs toLowerCase_examples)
  have h5: "isExitCommand (humanUserId ex_config) (textEvent ''e1'' ''@human:x'' ''EXIT'')"
      "humanUserId ex_config \<noteq> ''@bot:x''"
      "event_id (textEvent ''e1'' ''@human:x'' ''EXIT'') = Some ''e1''" "''e1'' \<noteq> []"
      "''e1'' \<notin> set (seen ?s1)"
      "exitCallback ?s = Some (\<lambda>u. Throws ex_boom)" "(\<lambda>u. Throws ex_boom) () = Throws ex_boom"
    by (simp_all add: isExitCommand_def eval_defs toLowerCase_examples)
  have e: "errorCallback ?s = None \<or> (\<exists>ecb. errorCallback ?s = Some ecb \<and> ecb (toError ex_boom) = Returns)"
    by (simp add: ex_state_def)
  let ?s1' = "?s1\<lparr>seen := evictOldSeen (set_add ''e1'' (seen ?s1)), trace := trace ?s1 @ [CallExit]\<rparr>"
  have "syncLoop_while ex_config [?a] ?s
        = syncLoop_while ex_config []
           (?s1'\<lparr>trace := trace ?s1' @ (case errorCallback ?s of None \<Rightarrow> []
                                          | Some ecb \<Rightarrow> [CallError (toError ex_boom)]) @ [Sleep 2000]\<rparr>)"
    using throwing_exit_callback [OF h1 h2 h3 h4 h5, of "[]"] e unfolding Let_def by blast
  then show ?thesis using h1(1) by (simp add: loop_eval_defs eval_defs)
qed

text \<open>
  Against claim C10 as stated: when the error callback throws as well, there is no
  back-off and the loop does not continue polling; the second exception leaves the loop,
  with \<open>running\<close> still true.
\<close>

theorem throwing_exit_callback_counterexample:
  "syncLoopAsync [ex_answers (ApiJson (ex_response ''T2'' [] [textEvent ''e1'' ''@human:x'' ''exit'']))]
     (ex_state\<lparr>exitCallback := Some (\<lambda>u. Throws ex_boom),
                errorCallback := Some (\<lambda>error. Throws (OtherValue ''again''))\<rparr>)
   = (Crashed (OtherValue ''again''),
      ex_state\<lparr>exitCallback := Some (\<lambda>u. Throws ex_boom),
                errorCallback := Some (\<lambda>error. Throws (OtherValue ''again'')),
                since := Some ''T2'', seen := [''e1''],
                trace := [Sync (Some ''T1'') 30000, CallExit, CallError ex_boom]\<rparr>)"
  by (simp add: loop_eval_defs eval_defs toLowerCase_examples)

section \<open>Initialization\<close>

text \<open>
  Claim C9. On a session that is not running, when the identity lookup and the bootstrap
  poll both return a body, \<open>initAsync\<close> sends exactly the identity lookup and one sync
  request without \<^verbatim>\<open>since\<close> and with timeout 0, invokes no callback, sets the cursor to
  the \<^verbatim>\<open>next_batch\<close> of the bootstrap response and starts the loop, whose first step is
  a sync request with that cursor; no later request of the loop has timeout 0. Nothing
  depends on the rooms and events of the bootstrap response.
\<close>

theorem init_bootstrap:
  assumes "whoami_answer ia = ApiJson uid" and "boot_answer ia = ApiJson boot" and "\<not> running s"
  shows "initAsync ia as cfg s =
           (Returns, snd (syncLoopAsync as
              (s\<lparr> config := Some cfg,
                  messageCallback := (case onHumanMessage cfg of None \<Rightarrow> messageCallback s | Some cb \<Rightarrow> Some cb),
                  errorCallback := (case onError cfg of None \<Rightarrow> errorCallback s | Some cb \<Rightarrow> Some cb),
                  exitCallback := (case onExit cfg of None \<Rightarrow> exitCallback s | Some cb \<Rightarrow> Some cb),
                  botUserId := Some uid, trace := trace s @ [Whoami, Sync None 0],
                  since := next_batch boot, running := True \<rparr>))) \<and>
         initAsync (ia\<lparr>boot_answer := ApiJson (boot\<lparr>rooms := backlog\<rparr>)\<rparr>) as cfg s = initAsync ia as cfg s \<and>
         (\<exists>t. trace (snd (initAsync ia as cfg s))
                = trace s @ Whoami # Sync None 0 # syncRequest (next_batch boot) 30000 # t \<and>
              (\<forall>c. Sync c 0 \<notin> set t))"
proof -
  let ?s0 = "s\<lparr> config := Some cfg,
                  messageCallback := (case onHumanMessage cfg of None \<Rightarrow> messageCallback s | Some cb \<Rightarrow> Some cb),
                  errorCallback := (case onError cfg of None \<Rightarrow> errorCallback s | Some cb \<Rightarrow> Some cb),
                  exitCallback := (case onExit cfg of None \<Rightarrow> exitCallback s | Some cb \<Rightarrow> Some cb),
                  botUserId := Some uid, trace := trace s @ [Whoami, Sync None 0],
                  since := next_batch boot, running := True \<rparr>"
  have eq: "initAsync ia' as cfg s = (Returns, snd (syncLoopAsync as ?s0))"
    if "whoami_answer ia' = ApiJson uid" and "\<exists>rs. boot_answer ia' = ApiJson (boot\<lparr>rooms := rs\<rparr>)" for ia'
    using that assms(3)
    by (auto simp: initAsync_def whoamiAsync_def syncOnceAsync_def apiAsync_def emit_def
        loopInBackground_def syncRequest_def truthy_def Let_def)
  have "boot_answer ia = ApiJson (boot\<lparr>rooms := rooms boot\<rparr>)" using assms(2) by simp
  then have e1: "initAsync ia as cfg s = (Returns, snd (syncLoopAsync as ?s0))"
    using assms(1) by (intro eq) blast+
  have e2: "initAsync (ia\<lparr>boot_answer := ApiJson (boot\<lparr>rooms := backlog\<rparr>)\<rparr>) as cfg s
              = (Returns, snd (syncLoopAsync as ?s0))"
    using assms(1) by (intro eq) auto
  obtain t where t: "trace (snd (syncLoop_while cfg as ?s0)) = trace ?s0 @ syncRequest (since ?s0) 30000 # t"
    using while_first [of ?s0 cfg as] by auto
  obtain u where u: "trace (snd (syncLoop_while cfg as ?s0)) = trace ?s0 @ u" "\<forall>c. Sync c 0 \<notin> set u"
    using while_kept [of ?s0 cfg as] by (auto simp: session_kept_def)
  have "u = syncRequest (since ?s0) 30000 # t" using t u(1) by simp
  then have "\<forall>c. Sync c 0 \<notin> set t" using u(2) by simp
  then have "\<exists>t. trace (snd (initAsync ia as cfg s))
                = trace s @ Whoami # Sync None 0 # syncRequest (next_batch boot) 30000 # t \<and>
              (\<forall>c. Sync c 0 \<notin> set t)"
    using e1 t by (simp add: syncLoopAsync_def)
  with e1 e2 show ?thesis by simp
qed

theorem init_bootstrap_witness:
  "initAsync ex_init_answers [] ex_callbacks_config initial_state
   = (Returns,
      \<lparr> config = Some ex_callbacks_config, since = Some ''s1'',
        messageCallback = Some (\<lambda>message sndr. Returns),
        errorCallback = Some (\<lambda>error. Returns),
        exitCallback = Some (\<lambda>u. Returns),
        botUserId = Some ''@bot:x'', running = True, seen = [],
        trace = [Whoami, Sync None 0, Sync (Some ''s1'') 30000] \<rparr>)"
proof -
  let ?boot = "ex_response ''s1'' [''!invited:x'']
                 [textEvent ''old1'' ''@human:x'' ''hi'', textEvent ''old2'' ''@human:x'' ''exit'']"
  have h: "whoami_answer ex_init_answers = ApiJson ''@bot:x''"
      "boot_answer ex_init_answers = ApiJson ?boot" "\<not> running initial_state"
    by (simp_all add: ex_init_answers_def initial_state_def)
  have "initAsync ex_init_answers [] ex_callbacks_config initial_state =
           (Returns, snd (syncLoopAsync []
              (initial_state\<lparr> config := Some ex_callbacks_config,
                  messageCallback := (case onHumanMessage ex_callbacks_config of
                      None \<Rightarrow> messageCallback initial_state | Some cb \<Rightarrow> Some cb),
                  errorCallback := (case onError ex_callbacks_config of
                      None \<Rightarrow> errorCallback initial_state | Some cb \<Rightarrow> Some cb),
                  exitCallback := (case onExit ex_callbacks_config of
                      None \<Rightarrow> exitCallback initial_state | Some cb \<Rightarrow> Some cb),
                  botUserId := Some ''@bot:x'', trace := trace initial_state @ [Whoami, Sync None 0],
                  since := next_batch ?boot, running := True \<rparr>)))"
    using init_bootstrap [OF h, of "[]" ex_callbacks_config] by blast
  then show ?thesis
    by (simp add: loop_eval_defs eval_defs initial_state_def ex_callbacks_config_def)
qed

end
